theory Spec2Isabelle
  imports Complex_Main "HOL-Library.Multiset"
begin

section \<open>Data model of \<open>src/App.tsx\<close>\<close>

text \<open>
  The game is one React component. Its state hooks are the fields of the record
  \<open>Session\<close> below, its interval callbacks, event handlers and effects are functions from
  a session to the updated session. JavaScript numbers holding coordinates and speeds are
  modelled as reals, counters, lane indices and millisecond times as integers.

  The record fields \<open>x\<close>, \<open>y\<close>, \<open>id\<close>, \<dots> of the source carry a prefix (\<open>p_\<close> for
  \<open>Player\<close>, \<open>o_\<close> for \<open>Obstacle\<close>), since a record field is a global constant in HOL.
\<close>

datatype GameState = Idle | Playing | Paused | GameOver

datatype PlayerState = Running | Jumping | Crawling

text \<open>
  The tags an obstacle's \<open>type\<close> field holds at run time: the four of the interface
  declaration and \<open>'air_branch'\<close>, which \<open>generateObstacle\<close> writes.
\<close>

datatype ObstacleType = Pit | GroundBox | AirBox | AirBranch | Normal

record Player =
  p_x :: real
  p_y :: real

record Obstacle =
  o_id :: real
  o_x :: real
  o_y :: real
  o_width :: real
  o_height :: real
  o_type :: "ObstacleType option"
  o_lane :: "int option"

definition GAME_WIDTH :: real where "GAME_WIDTH = 800"
definition GAME_HEIGHT :: real where "GAME_HEIGHT = 300"
definition PLAYER_SIZE :: real where "PLAYER_SIZE = 30"
definition GROUND_HEIGHT :: real where "GROUND_HEIGHT = 50"
definition MIN_OBSTACLE_DISTANCE :: real where "MIN_OBSTACLE_DISTANCE = 150"
definition LANES :: int where "LANES = 5"
definition ROAD_WIDTH :: real where "ROAD_WIDTH = GAME_WIDTH * 0.6"
definition ROAD_OFFSET :: real where "ROAD_OFFSET = (GAME_WIDTH - ROAD_WIDTH) / 2"
definition LANE_WIDTH :: real where "LANE_WIDTH = ROAD_WIDTH / real_of_int LANES"
definition TOP_PLAYER_Y :: real where "TOP_PLAYER_Y = GAME_HEIGHT - 40"

text \<open>
  The state of the component. The last two fields are the part of the JavaScript run time
  the component relies on: \<open>now\<close> is the wall clock in milliseconds (\<open>Date.now()\<close>) and
  \<open>timers\<close> holds the deadline of every \<open>setTimeout\<close> callback that has not fired yet.
  The only callback ever scheduled is \<open>() => setBottomPlayerState('running')\<close>.
\<close>

record Session =
  gameState :: GameState
  score :: int
  highScore :: int
  bottomPlayer :: Player
  topPlayer :: Player
  topPlayerLane :: int
  bottomObstacles :: "Obstacle list"
  topObstacles :: "Obstacle list"
  gameSpeed :: real
  topScreenSpeed :: real
  bottomScreenSpeed :: real
  lastTopObstacleTime :: int
  lastBottomObstacleX :: real
  keysPressed :: "string set"
  bottomPlayerState :: PlayerState
  jumpVelocity :: real
  now :: int
  timers :: "int list"

section \<open>Collision detection\<close>

text \<open>
  \<open>checkCollision\<close> (lines 331--357). The closure variable \<open>bottomPlayerState\<close> is the
  first argument.
\<close>

definition checkCollision :: "PlayerState \<Rightarrow> Player \<Rightarrow> Obstacle list \<Rightarrow> bool \<Rightarrow> bool" where
  "checkCollision bps player obstacles isBottom =
     list_ex (\<lambda>obs.
       let crawl = (isBottom \<and> bps = Crawling);
           playerLeft = p_x player - PLAYER_SIZE / 2;
           playerRight = p_x player + PLAYER_SIZE / 2;
           playerTop = (if crawl then p_y player else p_y player - PLAYER_SIZE / 2);
           playerBottom = (if crawl then p_y player + PLAYER_SIZE / 3
                           else p_y player + PLAYER_SIZE / 2);
           obsLeft = o_x obs;
           obsRight = o_x obs + o_width obs;
           obsTop = o_y obs;
           obsBottom = o_y obs + o_height obs
       in playerRight > obsLeft \<and> playerLeft < obsRight \<and>
          playerBottom > obsTop \<and> playerTop < obsBottom) obstacles"

text \<open>
  The player's hitbox as the four edges the detector computes, written out with the value
  of \<open>PLAYER_SIZE\<close>: the square of side 30 around the position, and for the crawling
  bottom player the strip from \<open>y\<close> to \<open>y + 10\<close>.
\<close>

definition hitLeft :: "Player \<Rightarrow> real" where "hitLeft p = p_x p - 15"
definition hitRight :: "Player \<Rightarrow> real" where "hitRight p = p_x p + 15"

definition hitTop :: "PlayerState \<Rightarrow> bool \<Rightarrow> Player \<Rightarrow> real" where
  "hitTop bps isBottom p = (if isBottom \<and> bps = Crawling then p_y p else p_y p - 15)"

definition hitBottom :: "PlayerState \<Rightarrow> bool \<Rightarrow> Player \<Rightarrow> real" where
  "hitBottom bps isBottom p = (if isBottom \<and> bps = Crawling then p_y p + 10 else p_y p + 15)"

section \<open>Input latch\<close>

text \<open>
  \<open>handleKeyDown\<close> and \<open>handleKeyUp\<close> (lines 69--90). The handlers are registered by an
  effect with an empty dependency list, so the \<open>gameState\<close> they read is the one captured
  when the component was mounted; it is the first argument here.
\<close>

definition handleKeyDown :: "GameState \<Rightarrow> string \<Rightarrow> Session \<Rightarrow> Session" where
  "handleKeyDown captured key s =
     (if key = '' '' then
        (if captured = Playing then s\<lparr>gameState := Paused\<rparr>
         else if captured = Paused then s\<lparr>gameState := Playing\<rparr>
         else s)
      else s\<lparr>keysPressed := insert key (keysPressed s)\<rparr>)"

definition handleKeyUp :: "string \<Rightarrow> Session \<Rightarrow> Session" where
  "handleKeyUp key s = s\<lparr>keysPressed := keysPressed s - {key}\<rparr>"

definition jumpKey :: "string set \<Rightarrow> bool" where
  "jumpKey K = (''ArrowUp'' \<in> K \<or> ''w'' \<in> K \<or> ''W'' \<in> K)"

definition crawlKey :: "string set \<Rightarrow> bool" where
  "crawlKey K = (''ArrowDown'' \<in> K \<or> ''s'' \<in> K \<or> ''S'' \<in> K)"

definition leftKey :: "string set \<Rightarrow> bool" where
  "leftKey K = (''ArrowLeft'' \<in> K \<or> ''a'' \<in> K \<or> ''A'' \<in> K)"

definition rightKey :: "string set \<Rightarrow> bool" where
  "rightKey K = (''ArrowRight'' \<in> K \<or> ''d'' \<in> K \<or> ''D'' \<in> K)"

section \<open>Player updates\<close>

definition groundY :: real where
  "groundY = GAME_HEIGHT - GROUND_HEIGHT - PLAYER_SIZE / 2"

definition laneCenter :: "int \<Rightarrow> real" where
  "laneCenter lane = ROAD_OFFSET + real_of_int lane * LANE_WIDTH + LANE_WIDTH / 2"

text \<open>
  The two lane changes of \<open>updatePlayers\<close> (lines 130--159): the new lane, the top
  player's x recomputed from it, and the three synonyms of the key deleted from the
  pressed set.
\<close>

definition moveLeft :: "Session \<Rightarrow> Session" where
  "moveLeft s =
     (let newLane = max 0 (topPlayerLane s - 1)
      in s\<lparr>topPlayerLane := newLane,
           topPlayer := (topPlayer s)\<lparr>p_x := laneCenter newLane\<rparr>,
           keysPressed := keysPressed s - {''ArrowLeft'', ''a'', ''A''}\<rparr>)"

definition moveRight :: "Session \<Rightarrow> Session" where
  "moveRight s =
     (let newLane = min (LANES - 1) (topPlayerLane s + 1)
      in s\<lparr>topPlayerLane := newLane,
           topPlayer := (topPlayer s)\<lparr>p_x := laneCenter newLane\<rparr>,
           keysPressed := keysPressed s - {''ArrowRight'', ''d'', ''D''}\<rparr>)"

text \<open>
  The updater passed to \<open>setBottomPlayer\<close> in \<open>updatePlayers\<close> (lines 107--127). Both
  conditions read \<open>keysPressed\<close> and \<open>bottomPlayerState\<close> of the render that created
  the interval, also when the jump branch has already queued its update; the queued
  updates apply in order, so with both keys down the state ends as crawling. The crawl
  branch schedules the revert 600 ms ahead. The returned player is \<open>prev\<close> with its own y.
\<close>

definition updateBottomPlayer :: "Session \<Rightarrow> Session" where
  "updateBottomPlayer s =
     (let K = keysPressed s;
          prev = bottomPlayer s;
          newY = p_y prev;
          s1 = (if jumpKey K \<and> bottomPlayerState s = Running \<and> p_y prev \<ge> groundY - 5
                then s\<lparr>bottomPlayerState := Jumping, jumpVelocity := - 18\<rparr> else s);
          s2 = (if crawlKey K \<and> bottomPlayerState s = Running
                then s1\<lparr>bottomPlayerState := Crawling, timers := timers s1 @ [now s1 + 600]\<rparr>
                else s1)
      in s2\<lparr>bottomPlayer := prev\<lparr>p_y := newY\<rparr>\<rparr>)"

text \<open>
  \<open>updatePlayers\<close> (lines 105--160), the body of the 16 ms interval: the bottom player's
  update, then the two lane changes, each guarded by the pressed set of the render that
  created the interval.
\<close>

definition updatePlayers :: "Session \<Rightarrow> Session" where
  "updatePlayers s =
     (let K = keysPressed s;
          s3 = updateBottomPlayer s;
          s4 = (if leftKey K then moveLeft s3 else s3)
      in (if rightKey K then moveRight s4 else s4))"

text \<open>\<open>jumpPhysics\<close> (lines 170--185), the body of the jump interval.\<close>

definition jumpPhysics :: "Session \<Rightarrow> Session" where
  "jumpPhysics s =
     (let prev = bottomPlayer s;
          newY = p_y prev + jumpVelocity s
      in if newY \<ge> groundY
         then s\<lparr>bottomPlayer := prev\<lparr>p_y := groundY\<rparr>,
                bottomPlayerState := Running, jumpVelocity := 0\<rparr>
         else s\<lparr>bottomPlayer := prev\<lparr>p_y := newY\<rparr>,
                jumpVelocity := jumpVelocity s + 0.7\<rparr>)"

section \<open>Obstacle generator\<close>

text \<open>
  The local variable \<open>obstacleType\<close> of \<open>generateObstacle\<close> and its selection from the
  draw \<open>rand\<close> (lines 212--220).
\<close>

datatype BottomKind = KindPit | KindGroundBox | KindAirBox

definition obstacleType :: "real \<Rightarrow> BottomKind" where
  "obstacleType rand =
     (if rand < 0.33 then KindPit
      else if rand < 0.66 then KindGroundBox
      else KindAirBox)"

text \<open>
  \<open>generateObstacle(false)\<close> (lines 192, 211--252); its arguments are the two values of
  \<open>Math.random()\<close> it draws, the id and \<open>rand\<close>. The game loop never calls
  \<open>generateObstacle(true)\<close>: it builds the top batch itself.
\<close>

definition generateObstacle :: "real \<Rightarrow> real \<Rightarrow> Obstacle" where
  "generateObstacle ident rand =
     (case obstacleType rand of
        KindPit \<Rightarrow>
          \<lparr>o_id = ident, o_x = GAME_WIDTH, o_y = GAME_HEIGHT - GROUND_HEIGHT,
           o_width = 50, o_height = 30, o_type = Some Pit, o_lane = None\<rparr>
      | KindGroundBox \<Rightarrow>
          \<lparr>o_id = ident, o_x = GAME_WIDTH, o_y = GAME_HEIGHT - GROUND_HEIGHT - 40,
           o_width = 35, o_height = 40, o_type = Some GroundBox, o_lane = None\<rparr>
      | KindAirBox \<Rightarrow>
          \<lparr>o_id = ident, o_x = GAME_WIDTH, o_y = GAME_HEIGHT - GROUND_HEIGHT - 45,
           o_width = 60, o_height = 15, o_type = Some AirBranch, o_lane = None\<rparr>)"

text \<open>
  What one tick of the game loop draws from \<open>Math.random()\<close>. \<open>topShuffle\<close> is the array
  \<open>availableLanes.sort(() => 0.5 - Math.random())\<close>: sorting with a random comparator
  leaves the order to the engine, which returns some rearrangement of the array.
  \<open>topIds i\<close> is the id drawn for the i-th obstacle of the batch.
\<close>

record TickRandom =
  bottomGate :: real
  bottomId :: real
  bottomRand :: real
  topGate :: real
  topCount :: real
  topShuffle :: "int list"
  topIds :: "nat \<Rightarrow> real"

definition availableLanes :: "int list" where
  "availableLanes = [0 .. LANES - 1]"

text \<open>
  The batch of the top stream (lines 297--309). \<open>slice(0, numObstacles)\<close> is \<open>take\<close> for
  the counts the draw can give (1 to 4).
\<close>

definition topObstacle :: "real \<Rightarrow> int \<Rightarrow> Obstacle" where
  "topObstacle ident lane =
     \<lparr>o_id = ident, o_x = ROAD_OFFSET + real_of_int lane * LANE_WIDTH + LANE_WIDTH * 0.1,
      o_y = - 30, o_width = LANE_WIDTH * 0.8, o_height = 30,
      o_type = Some Normal, o_lane = Some lane\<rparr>"

definition numObstacles :: "TickRandom \<Rightarrow> int" where
  "numObstacles rnd = \<lfloor>topCount rnd * real_of_int (LANES - 1)\<rfloor> + 1"

definition obstacleLanes :: "TickRandom \<Rightarrow> int list" where
  "obstacleLanes rnd = take (nat (numObstacles rnd)) (topShuffle rnd)"

definition newObstacles :: "TickRandom \<Rightarrow> Obstacle list" where
  "newObstacles rnd =
     map (\<lambda>(i, lane). topObstacle (topIds rnd i) lane) (enumerate 0 (obstacleLanes rnd))"

section \<open>Game loop\<close>

definition spawnBottom :: "TickRandom \<Rightarrow> Session \<Rightarrow> bool" where
  "spawnBottom rnd s \<longleftrightarrow>
     bottomGate rnd < 0.015 \<and> GAME_WIDTH - lastBottomObstacleX s > MIN_OBSTACLE_DISTANCE"

definition spawnTop :: "TickRandom \<Rightarrow> Session \<Rightarrow> bool" where
  "spawnTop rnd s \<longleftrightarrow> topGate rnd < 0.015 \<and> now s - lastTopObstacleTime s > 2000"

definition moveBottom :: "real \<Rightarrow> Obstacle list \<Rightarrow> Obstacle list" where
  "moveBottom speed obstacles =
     filter (\<lambda>obs. o_x obs > - o_width obs)
       (map (\<lambda>obs. obs\<lparr>o_x := o_x obs - speed\<rparr>) obstacles)"

definition moveTop :: "real \<Rightarrow> Obstacle list \<Rightarrow> Obstacle list" where
  "moveTop speed obstacles =
     filter (\<lambda>obs. o_y obs < GAME_HEIGHT + o_height obs)
       (map (\<lambda>obs. obs\<lparr>o_y := o_y obs + speed\<rparr>) obstacles)"

text \<open>
  \<open>gameLoop\<close> (lines 260--322), the body of the 16 ms interval of the game loop. The
  speeds and \<open>lastTopObstacleTime\<close> are dependencies of the effect, so the interval reads
  their current values. \<open>bottomObstacles\<close> is not: line 289 reads the array of the render
  that created the interval, here the argument \<open>captured\<close>.
\<close>

definition gameLoop :: "TickRandom \<Rightarrow> Obstacle list \<Rightarrow> Session \<Rightarrow> Session" where
  "gameLoop rnd captured s =
     (let moved = moveBottom (bottomScreenSpeed s) (bottomObstacles s);
          bottom' = (if spawnBottom rnd s
                     then moved @ [generateObstacle (bottomId rnd) (bottomRand rnd)]
                     else moved);
          lastX1 = (if spawnBottom rnd s then GAME_WIDTH else lastBottomObstacleX s);
          lastX2 = (case captured of [] \<Rightarrow> lastX1 - gameSpeed s
                    | _ # _ \<Rightarrow> o_x (last captured));
          currentTime = now s;
          movedTop = moveTop (topScreenSpeed s) (topObstacles s);
          top' = (if spawnTop rnd s then movedTop @ newObstacles rnd else movedTop);
          lastT = (if spawnTop rnd s then currentTime else lastTopObstacleTime s)
      in s\<lparr>bottomObstacles := bottom',
           topObstacles := top',
           lastBottomObstacleX := lastX2,
           lastTopObstacleTime := lastT,
           score := score s + 1,
           topScreenSpeed := min (topScreenSpeed s + 0.0008) 4,
           bottomScreenSpeed := min (bottomScreenSpeed s + 0.0015) 6,
           gameSpeed := min (gameSpeed s + 0.001) 5\<rparr>)"

text \<open>The collision effect (lines 328--366), run after a render.\<close>

definition collisionEffect :: "Session \<Rightarrow> Session" where
  "collisionEffect s =
     (if gameState s \<noteq> Playing then s
      else if checkCollision (bottomPlayerState s) (bottomPlayer s) (bottomObstacles s) True
              \<or> checkCollision (bottomPlayerState s) (topPlayer s) (topObstacles s) False
      then (if score s > highScore s
            then s\<lparr>gameState := GameOver, highScore := score s\<rparr>
            else s\<lparr>gameState := GameOver\<rparr>)
      else s)"

section \<open>Game state machine\<close>

definition startGame :: "Session \<Rightarrow> Session" where
  "startGame s =
     s\<lparr>gameState := Playing,
       score := 0,
       gameSpeed := 2,
       topScreenSpeed := 1.5,
       bottomScreenSpeed := 2,
       bottomPlayer := \<lparr>p_x = 100, p_y = GAME_HEIGHT - GROUND_HEIGHT - PLAYER_SIZE / 2\<rparr>,
       topPlayer := \<lparr>p_x = ROAD_OFFSET + LANE_WIDTH * 2 + LANE_WIDTH / 2, p_y = TOP_PLAYER_Y\<rparr>,
       topPlayerLane := 2,
       bottomObstacles := [],
       topObstacles := [],
       bottomPlayerState := Running,
       jumpVelocity := 0,
       lastTopObstacleTime := 0\<rparr>"

definition pauseGame :: "Session \<Rightarrow> Session" where
  "pauseGame s = s\<lparr>gameState := (if gameState s = Paused then Playing else Paused)\<rparr>"

definition resetGame :: "Session \<Rightarrow> Session" where
  "resetGame s =
     s\<lparr>gameState := Idle,
       score := 0,
       gameSpeed := 2,
       topScreenSpeed := 1.5,
       bottomScreenSpeed := 2,
       bottomPlayer := \<lparr>p_x = 100, p_y = GAME_HEIGHT - GROUND_HEIGHT - PLAYER_SIZE / 2\<rparr>,
       topPlayer := \<lparr>p_x = ROAD_OFFSET + LANE_WIDTH * 2 + LANE_WIDTH / 2, p_y = TOP_PLAYER_Y\<rparr>,
       topPlayerLane := 2,
       bottomObstacles := [],
       topObstacles := [],
       bottomPlayerState := Running,
       jumpVelocity := 0,
       lastTopObstacleTime := 0\<rparr>"

text \<open>
  The values of the \<open>useState\<close> initialisers (lines 35--65); the stored high score and the
  time of mounting are arguments.
\<close>

definition initialSession :: "int \<Rightarrow> int \<Rightarrow> Session" where
  "initialSession saved t0 =
     \<lparr>gameState = Idle, score = 0, highScore = saved,
      bottomPlayer = \<lparr>p_x = 100, p_y = GAME_HEIGHT - GROUND_HEIGHT - PLAYER_SIZE / 2\<rparr>,
      topPlayer = \<lparr>p_x = ROAD_OFFSET + LANE_WIDTH * 2 + LANE_WIDTH / 2, p_y = TOP_PLAYER_Y\<rparr>,
      topPlayerLane = 2,
      bottomObstacles = [], topObstacles = [],
      gameSpeed = 2, topScreenSpeed = 1.5, bottomScreenSpeed = 2,
      lastTopObstacleTime = 0, lastBottomObstacleX = GAME_WIDTH,
      keysPressed = {},
      bottomPlayerState = Running, jumpVelocity = 0,
      now = t0, timers = []\<rparr>"

section \<open>The component as a transition system\<close>

text \<open>
  Time passing: the clock advances by \<open>d\<close> milliseconds and every scheduled revert whose
  deadline has been reached fires, setting the bottom player's state to running. Nothing
  else reads or cancels a pending revert.
\<close>

definition elapse :: "nat \<Rightarrow> Session \<Rightarrow> Session" where
  "elapse d s =
     (let t = now s + int d;
          due = filter (\<lambda>deadline. deadline \<le> t) (timers s);
          pending = filter (\<lambda>deadline. t < deadline) (timers s)
      in if due = [] then s\<lparr>now := t\<rparr>
         else s\<lparr>now := t, timers := pending, bottomPlayerState := Running\<rparr>)"

text \<open>
  Everything that can happen to the component: key events, a firing of each of the three
  intervals, the collision effect, the three buttons, and time passing. An interval exists
  only while its effect's guard holds (lines 103, 168, 258), so a firing outside the guard
  changes nothing. The key handlers see the game state of the mount, \<open>idle\<close>.
\<close>

datatype Event =
    KeyDown string
  | KeyUp string
  | PlayersTick
  | JumpTick
  | LoopTick TickRandom "Obstacle list"
  | CollisionCheck
  | StartClick
  | PauseClick
  | ResetClick
  | Elapse nat

fun step :: "Event \<Rightarrow> Session \<Rightarrow> Session" where
  "step (KeyDown key) s = handleKeyDown Idle key s"
| "step (KeyUp key) s = handleKeyUp key s"
| "step PlayersTick s = (if gameState s = Playing then updatePlayers s else s)"
| "step JumpTick s =
     (if gameState s = Playing \<and> bottomPlayerState s = Jumping then jumpPhysics s else s)"
| "step (LoopTick rnd captured) s =
     (if gameState s = Playing then gameLoop rnd captured s else s)"
| "step CollisionCheck s = collisionEffect s"
| "step StartClick s = startGame s"
| "step PauseClick s = pauseGame s"
| "step ResetClick s = resetGame s"
| "step (Elapse d) s = elapse d s"

definition run :: "Event list \<Rightarrow> Session \<Rightarrow> Session" where
  "run events s = foldl (\<lambda>st e. step e st) s events"

text \<open>The state after \<open>n\<close> firings of the jump interval.\<close>

definition jumpTicks :: "nat \<Rightarrow> Session \<Rightarrow> Session" where
  "jumpTicks n s = (step JumpTick ^^ n) s"

text \<open>
  Events under which a key that is down stays down and the session is not restarted:
  everything but a key press and the start and reset buttons.
\<close>

fun noPress :: "Event \<Rightarrow> bool" where
  "noPress (KeyDown key) = False"
| "noPress StartClick = False"
| "noPress ResetClick = False"
| "noPress e = True"

text \<open>
  Two sample draws of a tick: one in which neither spawn gate opens, and one in which the
  top gate opens with a count draw of 0.6 and the lanes shuffled to 3, 0, 4, 1, 2.
\<close>

definition quietTick :: TickRandom where
  "quietTick = \<lparr>bottomGate = 1/2, bottomId = 0, bottomRand = 0, topGate = 1/2,
     topCount = 0, topShuffle = [0, 1, 2, 3, 4], topIds = (\<lambda>i. 0)\<rparr>"

definition busyTick :: TickRandom where
  "busyTick = \<lparr>bottomGate = 1/2, bottomId = 0, bottomRand = 0, topGate = 1/100,
     topCount = 6/10, topShuffle = [3, 0, 4, 1, 2], topIds = (\<lambda>i. real i)\<rparr>"

section \<open>Properties\<close>

lemmas game_constants =
  GAME_WIDTH_def GAME_HEIGHT_def PLAYER_SIZE_def GROUND_HEIGHT_def
  MIN_OBSTACLE_DISTANCE_def LANES_def ROAD_WIDTH_def ROAD_OFFSET_def LANE_WIDTH_def
  TOP_PLAYER_Y_def groundY_def

lemmas callback_defs =
  handleKeyDown_def handleKeyUp_def updatePlayers_def updateBottomPlayer_def moveLeft_def
  moveRight_def jumpPhysics_def gameLoop_def collisionEffect_def startGame_def
  pauseGame_def resetGame_def elapse_def

lemma run_Nil: "run [] s = s"
  by (simp add: run_def)

lemma run_snoc: "run (events @ [e]) s = step e (run events s)"
  by (simp add: run_def)

subsection \<open>What each callback leaves alone\<close>

lemma handleKeyDown_frame:
  "score (handleKeyDown g key s) = score s"
  "bottomPlayer (handleKeyDown g key s) = bottomPlayer s"
  "topPlayer (handleKeyDown g key s) = topPlayer s"
  "topPlayerLane (handleKeyDown g key s) = topPlayerLane s"
  "now (handleKeyDown g key s) = now s"
  "timers (handleKeyDown g key s) = timers s"
  by (simp_all add: handleKeyDown_def)

lemma handleKeyUp_frame:
  "score (handleKeyUp key s) = score s"
  "bottomPlayer (handleKeyUp key s) = bottomPlayer s"
  "topPlayer (handleKeyUp key s) = topPlayer s"
  "topPlayerLane (handleKeyUp key s) = topPlayerLane s"
  "now (handleKeyUp key s) = now s"
  "timers (handleKeyUp key s) = timers s"
  "keysPressed (handleKeyUp key s) = keysPressed s - {key}"
  by (simp_all add: handleKeyUp_def)

lemma moveLeft_frame:
  "score (moveLeft s) = score s"
  "bottomPlayer (moveLeft s) = bottomPlayer s"
  "now (moveLeft s) = now s"
  "timers (moveLeft s) = timers s"
  "gameState (moveLeft s) = gameState s"
  "bottomPlayerState (moveLeft s) = bottomPlayerState s"
  "p_y (topPlayer (moveLeft s)) = p_y (topPlayer s)"
  "topPlayerLane (moveLeft s) = max 0 (topPlayerLane s - 1)"
  "p_x (topPlayer (moveLeft s)) = laneCenter (max 0 (topPlayerLane s - 1))"
  "keysPressed (moveLeft s) = keysPressed s - {''ArrowLeft'', ''a'', ''A''}"
  by (simp_all add: moveLeft_def Let_def)

lemma moveRight_frame:
  "score (moveRight s) = score s"
  "bottomPlayer (moveRight s) = bottomPlayer s"
  "now (moveRight s) = now s"
  "timers (moveRight s) = timers s"
  "gameState (moveRight s) = gameState s"
  "bottomPlayerState (moveRight s) = bottomPlayerState s"
  "p_y (topPlayer (moveRight s)) = p_y (topPlayer s)"
  "topPlayerLane (moveRight s) = min (LANES - 1) (topPlayerLane s + 1)"
  "p_x (topPlayer (moveRight s)) = laneCenter (min (LANES - 1) (topPlayerLane s + 1))"
  "keysPressed (moveRight s) = keysPressed s - {''ArrowRight'', ''d'', ''D''}"
  by (simp_all add: moveRight_def Let_def)

lemma updatePlayers_split:
  "updatePlayers s =
     (let s4 = (if leftKey (keysPressed s) then moveLeft (updateBottomPlayer s) else updateBottomPlayer s)
      in if rightKey (keysPressed s) then moveRight s4 else s4)"
  by (simp add: updatePlayers_def Let_def)

lemma updateBottomPlayer_frame:
  "score (updateBottomPlayer s) = score s"
  "bottomPlayer (updateBottomPlayer s) = bottomPlayer s"
  "topPlayer (updateBottomPlayer s) = topPlayer s"
  "topPlayerLane (updateBottomPlayer s) = topPlayerLane s"
  "keysPressed (updateBottomPlayer s) = keysPressed s"
  "now (updateBottomPlayer s) = now s"
  "gameState (updateBottomPlayer s) = gameState s"
  by (simp_all add: updateBottomPlayer_def Let_def)

lemma updateBottomPlayer_timers:
  "timers (updateBottomPlayer s) =
     (if crawlKey (keysPressed s) \<and> bottomPlayerState s = Running
      then timers s @ [now s + 600] else timers s)"
  by (simp add: updateBottomPlayer_def Let_def)

lemma updateBottomPlayer_state:
  "bottomPlayerState (updateBottomPlayer s) =
     (if crawlKey (keysPressed s) \<and> bottomPlayerState s = Running then Crawling
      else if jumpKey (keysPressed s) \<and> bottomPlayerState s = Running
              \<and> p_y (bottomPlayer s) \<ge> groundY - 5 then Jumping
      else bottomPlayerState s)"
  by (simp add: updateBottomPlayer_def Let_def)

lemma updatePlayers_frame:
  "score (updatePlayers s) = score s"
  "bottomPlayer (updatePlayers s) = bottomPlayer s"
  "now (updatePlayers s) = now s"
  "gameState (updatePlayers s) = gameState s"
  "timers (updatePlayers s) = timers (updateBottomPlayer s)"
  "bottomPlayerState (updatePlayers s) = bottomPlayerState (updateBottomPlayer s)"
  "p_y (topPlayer (updatePlayers s)) = p_y (topPlayer s)"
  by (simp_all add: updatePlayers_split Let_def moveLeft_frame moveRight_frame
      updateBottomPlayer_frame)

lemma updatePlayers_lane:
  "topPlayerLane (updatePlayers s) =
     (let l1 = (if leftKey (keysPressed s) then max 0 (topPlayerLane s - 1)
                else topPlayerLane s)
      in if rightKey (keysPressed s) then min (LANES - 1) (l1 + 1) else l1)"
  by (simp add: updatePlayers_split Let_def moveLeft_frame moveRight_frame updateBottomPlayer_frame)

lemma updatePlayers_x:
  "p_x (topPlayer (updatePlayers s)) =
     (if leftKey (keysPressed s) \<or> rightKey (keysPressed s)
      then laneCenter (topPlayerLane (updatePlayers s)) else p_x (topPlayer s))"
  by (simp add: updatePlayers_split Let_def moveLeft_frame moveRight_frame updateBottomPlayer_frame)

lemma updatePlayers_keys:
  "keysPressed (updatePlayers s) =
     (let K1 = (if leftKey (keysPressed s)
                then keysPressed s - {''ArrowLeft'', ''a'', ''A''} else keysPressed s)
      in if rightKey (keysPressed s) then K1 - {''ArrowRight'', ''d'', ''D''} else K1)"
  by (simp add: updatePlayers_split Let_def moveLeft_frame moveRight_frame updateBottomPlayer_frame)

lemma leftKey_antimono: "leftKey (K - D) \<Longrightarrow> leftKey K"
  by (auto simp: leftKey_def)

lemma rightKey_antimono: "rightKey (K - D) \<Longrightarrow> rightKey K"
  by (auto simp: rightKey_def)

lemma leftKey_removed: "\<not> leftKey (K - {''ArrowLeft'', ''a'', ''A''} - D)"
  by (simp add: leftKey_def)

lemma rightKey_removed: "\<not> rightKey (K - {''ArrowRight'', ''d'', ''D''})"
  by (simp add: rightKey_def)

lemma updatePlayers_consumes:
  "\<not> leftKey (keysPressed (updatePlayers s)) \<and> \<not> rightKey (keysPressed (updatePlayers s))"
proof -
  have L: "\<not> leftKey (keysPressed (updatePlayers s))"
  proof (cases "leftKey (keysPressed s)")
    case True
    have "\<not> leftKey (keysPressed s - {''ArrowLeft'', ''a'', ''A''} - {})"
      by (rule leftKey_removed)
    with True leftKey_removed [of "keysPressed s" "{''ArrowRight'', ''d'', ''D''}"]
    show ?thesis by (simp add: updatePlayers_keys Let_def)
  next
    case False
    with leftKey_antimono [of "keysPressed s" "{''ArrowRight'', ''d'', ''D''}"]
    show ?thesis by (auto simp add: updatePlayers_keys Let_def)
  qed
  have R: "\<not> rightKey (keysPressed (updatePlayers s))"
  proof (cases "rightKey (keysPressed s)")
    case True
    with rightKey_removed [of "keysPressed s"]
      rightKey_removed [of "keysPressed s - {''ArrowLeft'', ''a'', ''A''}"]
    show ?thesis by (simp add: updatePlayers_keys Let_def)
  next
    case False
    with rightKey_antimono [of "keysPressed s" "{''ArrowLeft'', ''a'', ''A''}"]
    show ?thesis by (auto simp add: updatePlayers_keys Let_def)
  qed
  from L R show ?thesis by simp
qed

lemma jumpPhysics_frame:
  "score (jumpPhysics s) = score s"
  "p_x (bottomPlayer (jumpPhysics s)) = p_x (bottomPlayer s)"
  "topPlayer (jumpPhysics s) = topPlayer s"
  "topPlayerLane (jumpPhysics s) = topPlayerLane s"
  "keysPressed (jumpPhysics s) = keysPressed s"
  "now (jumpPhysics s) = now s"
  "timers (jumpPhysics s) = timers s"
  by (simp_all add: jumpPhysics_def Let_def)

lemma gameLoop_frame:
  "score (gameLoop rnd captured s) = score s + 1"
  "bottomPlayer (gameLoop rnd captured s) = bottomPlayer s"
  "topPlayer (gameLoop rnd captured s) = topPlayer s"
  "topPlayerLane (gameLoop rnd captured s) = topPlayerLane s"
  "keysPressed (gameLoop rnd captured s) = keysPressed s"
  "now (gameLoop rnd captured s) = now s"
  "timers (gameLoop rnd captured s) = timers s"
  by (simp_all add: gameLoop_def Let_def)

lemma collisionEffect_frame:
  "score (collisionEffect s) = score s"
  "bottomPlayer (collisionEffect s) = bottomPlayer s"
  "topPlayer (collisionEffect s) = topPlayer s"
  "topPlayerLane (collisionEffect s) = topPlayerLane s"
  "keysPressed (collisionEffect s) = keysPressed s"
  "now (collisionEffect s) = now s"
  "timers (collisionEffect s) = timers s"
  by (simp_all add: collisionEffect_def)

lemma pauseGame_frame:
  "score (pauseGame s) = score s"
  "bottomPlayer (pauseGame s) = bottomPlayer s"
  "topPlayer (pauseGame s) = topPlayer s"
  "topPlayerLane (pauseGame s) = topPlayerLane s"
  "keysPressed (pauseGame s) = keysPressed s"
  "now (pauseGame s) = now s"
  "timers (pauseGame s) = timers s"
  by (simp_all add: pauseGame_def)

lemma restart_frame:
  "bottomPlayer (startGame s) = \<lparr>p_x = 100, p_y = groundY\<rparr>"
  "bottomPlayer (resetGame s) = \<lparr>p_x = 100, p_y = groundY\<rparr>"
  "topPlayer (startGame s) = \<lparr>p_x = laneCenter 2, p_y = TOP_PLAYER_Y\<rparr>"
  "topPlayer (resetGame s) = \<lparr>p_x = laneCenter 2, p_y = TOP_PLAYER_Y\<rparr>"
  "topPlayerLane (startGame s) = 2"
  "topPlayerLane (resetGame s) = 2"
  "now (startGame s) = now s"
  "now (resetGame s) = now s"
  "timers (startGame s) = timers s"
  "timers (resetGame s) = timers s"
  by (simp_all add: startGame_def resetGame_def groundY_def laneCenter_def)

lemma elapse_frame:
  "score (elapse d s) = score s"
  "bottomPlayer (elapse d s) = bottomPlayer s"
  "topPlayer (elapse d s) = topPlayer s"
  "topPlayerLane (elapse d s) = topPlayerLane s"
  "keysPressed (elapse d s) = keysPressed s"
  "now (elapse d s) = now s + int d"
  by (simp_all add: elapse_def Let_def)

lemmas frames =
  handleKeyDown_frame handleKeyUp_frame updatePlayers_frame jumpPhysics_frame
  gameLoop_frame collisionEffect_frame pauseGame_frame restart_frame elapse_frame

subsection \<open>Collision detection\<close>

lemma checkCollision_single:
  "checkCollision bps p [obs] isBottom \<longleftrightarrow>
     hitRight p > o_x obs \<and> hitLeft p < o_x obs + o_width obs \<and>
     hitBottom bps isBottom p > o_y obs \<and> hitTop bps isBottom p < o_y obs + o_height obs"
  by (simp add: checkCollision_def Let_def PLAYER_SIZE_def hitLeft_def hitRight_def
      hitTop_def hitBottom_def)

lemma checkCollision_list:
  "checkCollision bps p obstacles isBottom \<longleftrightarrow>
     (\<exists>obs \<in> set obstacles. checkCollision bps p [obs] isBottom)"
  by (simp add: checkCollision_def list_ex_iff)

text \<open>
  Claim C1. \<open>checkCollision\<close> is true exactly when some obstacle of the list satisfies the
  four strict inequalities playerRight > obsLeft, playerLeft < obsRight,
  playerBottom > obsTop and playerTop < obsBottom against the player's hitbox; and a box
  that only touches the hitbox at an edge (an edge of one equal to the facing edge of the
  other) is not a collision.
\<close>

theorem checkCollision_strict_overlap:
  "(checkCollision bps p obstacles isBottom \<longleftrightarrow>
      (\<exists>obs \<in> set obstacles.
         hitRight p > o_x obs \<and> hitLeft p < o_x obs + o_width obs \<and>
         hitBottom bps isBottom p > o_y obs \<and>
         hitTop bps isBottom p < o_y obs + o_height obs)) \<and>
   (hitRight p = o_x ob \<or> hitLeft p = o_x ob + o_width ob \<or>
    hitBottom bps isBottom p = o_y ob \<or> hitTop bps isBottom p = o_y ob + o_height ob
      \<longrightarrow> \<not> checkCollision bps p [ob] isBottom)"
proof
  show "checkCollision bps p obstacles isBottom \<longleftrightarrow>
      (\<exists>obs \<in> set obstacles.
         hitRight p > o_x obs \<and> hitLeft p < o_x obs + o_width obs \<and>
         hitBottom bps isBottom p > o_y obs \<and>
         hitTop bps isBottom p < o_y obs + o_height obs)"
    by (simp only: checkCollision_list [of bps p obstacles] checkCollision_single)
next
  show "hitRight p = o_x ob \<or> hitLeft p = o_x ob + o_width ob \<or>
    hitBottom bps isBottom p = o_y ob \<or> hitTop bps isBottom p = o_y ob + o_height ob
      \<longrightarrow> \<not> checkCollision bps p [ob] isBottom"
    by (auto simp: checkCollision_single)
qed

theorem checkCollision_strict_overlap_witness:
  "(let p = \<lparr>p_x = 100, p_y = 235\<rparr>;
        box = \<lparr>o_id = 0, o_x = 100, o_y = 210, o_width = 35, o_height = 40,
               o_type = Some GroundBox, o_lane = None\<rparr>;
        touching = box\<lparr>o_x := 115\<rparr>
    in checkCollision Running p [box] True \<and>
       (\<exists>obs \<in> set [box]. hitRight p > o_x obs \<and> hitLeft p < o_x obs + o_width obs \<and>
          hitBottom Running True p > o_y obs \<and>
          hitTop Running True p < o_y obs + o_height obs) \<and>
       hitRight p = o_x touching \<and> \<not> checkCollision Running p [touching] True)"
  using checkCollision_strict_overlap
    [of Running "\<lparr>p_x = 100, p_y = 235\<rparr>"
        "[\<lparr>o_id = 0, o_x = 100, o_y = 210, o_width = 35, o_height = 40,
               o_type = Some GroundBox, o_lane = None\<rparr>]" True
        "\<lparr>o_id = 0, o_x = 115, o_y = 210, o_width = 35, o_height = 40,
               o_type = Some GroundBox, o_lane = None\<rparr>"]
  by (simp add: hitLeft_def hitRight_def hitTop_def hitBottom_def)

text \<open>
  Claim C2, evaluated on the code. The bottom player runs at ground level, with hitbox
  85..115 by 220..250. A pit and an air branch as \<open>generateObstacle\<close> makes them, scrolled
  to x = 90, overlap the player's horizontal span; the pit's box is 250..280 and the
  branch's is 205..220 vertically, so each only touches the hitbox at an edge and
  \<open>checkCollision\<close> reports no collision for either.
\<close>

theorem running_player_passes_pit_and_branch:
  "(let player = \<lparr>p_x = 100, p_y = groundY\<rparr>;
        pit = (generateObstacle 0 (1/10))\<lparr>o_x := 90\<rparr>;
        branch = (generateObstacle 0 (9/10))\<lparr>o_x := 90\<rparr>
    in o_type pit = Some Pit \<and> o_type branch = Some AirBranch \<and>
       hitLeft player < o_x pit + o_width pit \<and> o_x pit < hitRight player \<and>
       hitLeft player < o_x branch + o_width branch \<and> o_x branch < hitRight player \<and>
       \<not> checkCollision Running player [pit] True \<and>
       \<not> checkCollision Running player [branch] True)"
  by (simp add: generateObstacle_def obstacleType_def checkCollision_def game_constants
      hitLeft_def hitRight_def)

subsection \<open>Jump physics\<close>

lemma air_step:
  assumes "gameState s = Playing" "bottomPlayerState s = Jumping"
    and "p_y (bottomPlayer s) + jumpVelocity s < groundY"
  shows "gameState (step JumpTick s) = Playing"
    and "bottomPlayerState (step JumpTick s) = Jumping"
    and "p_y (bottomPlayer (step JumpTick s)) = p_y (bottomPlayer s) + jumpVelocity s"
    and "jumpVelocity (step JumpTick s) = jumpVelocity s + 0.7"
  using assms by (simp_all add: jumpPhysics_def Let_def)

lemma land_step:
  assumes "gameState s = Playing" "bottomPlayerState s = Jumping"
    and "p_y (bottomPlayer s) + jumpVelocity s \<ge> groundY"
  shows "gameState (step JumpTick s) = Playing"
    and "bottomPlayerState (step JumpTick s) = Running"
    and "p_y (bottomPlayer (step JumpTick s)) = groundY"
    and "jumpVelocity (step JumpTick s) = 0"
  using assms by (simp_all add: jumpPhysics_def Let_def)

lemma jumpTicks_Suc: "jumpTicks (Suc n) s = step JumpTick (jumpTicks n s)"
  by (simp add: jumpTicks_def)

lemma flight_ineq:
  assumes "k \<le> 51"
  shows "(7/20) * real k * (real k - 1) - 18 * real k + (0.7 * real k - 18) < 0"
proof -
  have "(7/20) * real k * (real k - 1) - 18 * real k + (0.7 * real k - 18)
        = (real k + 1) * ((7/20) * real k - 18)"
    by (simp add: field_simps)
  moreover have "(7/20) * real k - 18 < 0" using assms by simp
  moreover have "real k + 1 > 0" by simp
  ultimately show ?thesis by (simp add: mult_pos_neg)
qed

lemma flight:
  assumes "gameState s = Playing" "bottomPlayerState s = Jumping"
    and "p_y (bottomPlayer s) = groundY" "jumpVelocity s = - 18"
  shows "k \<le> 52 \<Longrightarrow>
     gameState (jumpTicks k s) = Playing \<and>
     bottomPlayerState (jumpTicks k s) = Jumping \<and>
     p_y (bottomPlayer (jumpTicks k s)) = groundY - 18 * real k + (7/20) * real k * (real k - 1) \<and>
     jumpVelocity (jumpTicks k s) = 0.7 * real k - 18"
proof (induction k)
  case 0
  then show ?case using assms by (simp add: jumpTicks_def)
next
  case (Suc k)
  then have IH: "gameState (jumpTicks k s) = Playing"
     "bottomPlayerState (jumpTicks k s) = Jumping"
     "p_y (bottomPlayer (jumpTicks k s)) = groundY - 18 * real k + (7/20) * real k * (real k - 1)"
     "jumpVelocity (jumpTicks k s) = 0.7 * real k - 18"
    by simp_all
  from Suc.prems have "k \<le> 51" by simp
  from flight_ineq [OF this]
  have air: "p_y (bottomPlayer (jumpTicks k s)) + jumpVelocity (jumpTicks k s) < groundY"
    by (simp add: IH)
  note A = air_step [OF IH(1) IH(2) air]
  show ?case
    by (simp only: jumpTicks_Suc A IH) (simp add: field_simps)
qed

lemma jump_start:
  assumes "gameState s = Playing" "bottomPlayerState s = Running"
    and "p_y (bottomPlayer s) = groundY" "jumpKey (keysPressed s)"
    and "\<not> crawlKey (keysPressed s)"
  shows "gameState (step PlayersTick s) = Playing"
    and "bottomPlayerState (step PlayersTick s) = Jumping"
    and "p_y (bottomPlayer (step PlayersTick s)) = groundY"
    and "jumpVelocity (step PlayersTick s) = - 18"
  using assms
  by (simp_all add: updatePlayers_def updateBottomPlayer_def Let_def moveLeft_def
      moveRight_def)

lemma grounded_JumpTick: "bottomPlayerState s = Running \<Longrightarrow> step JumpTick s = s"
  by simp

lemma landed:
  assumes "gameState s = Playing" "bottomPlayerState s = Jumping"
    and "p_y (bottomPlayer s) = groundY" "jumpVelocity s = - 18"
  shows "53 \<le> n \<Longrightarrow>
     bottomPlayerState (jumpTicks n s) = Running \<and>
     p_y (bottomPlayer (jumpTicks n s)) = groundY \<and>
     jumpVelocity (jumpTicks n s) = 0"
proof (induction n)
  case 0
  then show ?case by simp
next
  case (Suc n)
  show ?case
  proof (cases "n = 52")
    case True
    from flight [OF assms, of 52]
    have F: "gameState (jumpTicks 52 s) = Playing"
      "bottomPlayerState (jumpTicks 52 s) = Jumping"
      "p_y (bottomPlayer (jumpTicks 52 s)) = groundY - 18 * 52 + (7/20) * 52 * (52 - 1)"
      "jumpVelocity (jumpTicks 52 s) = 0.7 * 52 - 18"
      by simp_all
    have "p_y (bottomPlayer (jumpTicks 52 s)) + jumpVelocity (jumpTicks 52 s) \<ge> groundY"
      by (simp add: F)
    from land_step [OF F(1) F(2) this] show ?thesis
      unfolding True jumpTicks_Suc by (simp del: step.simps)
  next
    case False
    with Suc.prems have "53 \<le> n" by simp
    from Suc.IH [OF this] show ?thesis
      by (simp only: jumpTicks_Suc grounded_JumpTick) 
  qed
qed

lemma never_below_ground:
  assumes "gameState s = Playing" "bottomPlayerState s = Jumping"
    and "p_y (bottomPlayer s) = groundY" "jumpVelocity s = - 18"
  shows "p_y (bottomPlayer (jumpTicks n s)) \<le> groundY"
proof (cases "n \<le> 52")
  case True
  show ?thesis
  proof (cases n)
    case 0
    then show ?thesis using assms by (simp add: jumpTicks_def)
  next
    case (Suc k)
    with True have k: "k \<le> 51" by simp
    then have "k \<le> 52" by simp
    from flight [OF assms this] flight_ineq [OF k]
    have air: "p_y (bottomPlayer (jumpTicks k s)) + jumpVelocity (jumpTicks k s) < groundY"
      and P: "gameState (jumpTicks k s) = Playing" "bottomPlayerState (jumpTicks k s) = Jumping"
      by simp_all
    from air_step(3) [OF P air] air show ?thesis
      by (simp only: Suc jumpTicks_Suc)
  qed
next
  case False
  then have "53 \<le> n" by simp
  from landed [OF assms this] show ?thesis by simp
qed

text \<open>
  Claim C3. From ground level in state running, with the jump key pressed (and no crawl
  key), the player tick starts a jump: state jumping, velocity -18, y still at ground
  level. Each of the next 52 ticks of the jump interval adds the velocity to y and then
  0.7 to the velocity, and leaves the player in the air, still jumping. The 53rd tick
  lands: y is exactly the ground level, the velocity is 0 and the state is running, and
  so it stays under further ticks of the interval. At no tick is y below the ground.
\<close>

theorem jump_returns_to_ground:
  assumes "gameState s = Playing" and "bottomPlayerState s = Running"
    and "p_y (bottomPlayer s) = groundY"
    and "jumpKey (keysPressed s)" and "\<not> crawlKey (keysPressed s)"
  shows "let j = step PlayersTick s in
     bottomPlayerState j = Jumping \<and> jumpVelocity j = - 18 \<and> p_y (bottomPlayer j) = groundY \<and>
     (\<forall>k<52.
        p_y (bottomPlayer (jumpTicks (Suc k) j))
          = p_y (bottomPlayer (jumpTicks k j)) + jumpVelocity (jumpTicks k j) \<and>
        jumpVelocity (jumpTicks (Suc k) j) = jumpVelocity (jumpTicks k j) + 0.7 \<and>
        bottomPlayerState (jumpTicks (Suc k) j) = Jumping \<and>
        p_y (bottomPlayer (jumpTicks (Suc k) j)) < groundY) \<and>
     (\<forall>n\<ge>53.
        p_y (bottomPlayer (jumpTicks n j)) = groundY \<and>
        jumpVelocity (jumpTicks n j) = 0 \<and>
        bottomPlayerState (jumpTicks n j) = Running) \<and>
     (\<forall>n. p_y (bottomPlayer (jumpTicks n j)) \<le> groundY)"
proof -
  define j where "j = step PlayersTick s"
  note J = jump_start [OF assms, folded j_def]
  have J': "gameState j = Playing" "bottomPlayerState j = Jumping"
    "p_y (bottomPlayer j) = groundY" "jumpVelocity j = - 18"
    using J by simp_all
  have air: "p_y (bottomPlayer (jumpTicks (Suc k) j))
          = p_y (bottomPlayer (jumpTicks k j)) + jumpVelocity (jumpTicks k j) \<and>
        jumpVelocity (jumpTicks (Suc k) j) = jumpVelocity (jumpTicks k j) + 0.7 \<and>
        bottomPlayerState (jumpTicks (Suc k) j) = Jumping \<and>
        p_y (bottomPlayer (jumpTicks (Suc k) j)) < groundY" if "k < 52" for k
  proof -
    from that have k: "k \<le> 51" and k': "k \<le> 52" by simp_all
    from flight [OF J' k'] flight_ineq [OF k]
    have lt: "p_y (bottomPlayer (jumpTicks k j)) + jumpVelocity (jumpTicks k j) < groundY"
      and P: "gameState (jumpTicks k j) = Playing" "bottomPlayerState (jumpTicks k j) = Jumping"
      by simp_all
    from air_step [OF P lt] lt show ?thesis
      by (simp only: jumpTicks_Suc)
  qed
  show ?thesis
    unfolding Let_def j_def [symmetric]
    using J' air landed [OF J'] never_below_ground [OF J'] by blast
qed

theorem jump_returns_to_ground_witness:
  "let s = run [KeyDown ''ArrowUp'', StartClick] (initialSession 0 0);
       j = step PlayersTick s
   in gameState s = Playing \<and> bottomPlayerState s = Running \<and>
      p_y (bottomPlayer s) = groundY \<and> jumpKey (keysPressed s) \<and>
      \<not> crawlKey (keysPressed s) \<and>
      jumpVelocity j = - 18 \<and>
      p_y (bottomPlayer (jumpTicks 1 j)) = groundY - 18 \<and>
      p_y (bottomPlayer (jumpTicks 53 j)) = groundY \<and>
      bottomPlayerState (jumpTicks 53 j) = Running"
proof -
  define s where "s = run [KeyDown ''ArrowUp'', StartClick] (initialSession 0 0)"
  have H: "gameState s = Playing" "bottomPlayerState s = Running"
    "p_y (bottomPlayer s) = groundY" "jumpKey (keysPressed s)"
    "\<not> crawlKey (keysPressed s)"
    by (simp_all add: s_def run_def handleKeyDown_def startGame_def initialSession_def
        groundY_def jumpKey_def crawlKey_def)
  from jump_returns_to_ground [OF H]
  have "jumpVelocity (step PlayersTick s) = - 18"
    and "p_y (bottomPlayer (step PlayersTick s)) = groundY"
    and A: "\<forall>k<52. p_y (bottomPlayer (jumpTicks (Suc k) (step PlayersTick s)))
          = p_y (bottomPlayer (jumpTicks k (step PlayersTick s)))
            + jumpVelocity (jumpTicks k (step PlayersTick s))"
    and B: "\<forall>n\<ge>53. p_y (bottomPlayer (jumpTicks n (step PlayersTick s))) = groundY \<and>
        bottomPlayerState (jumpTicks n (step PlayersTick s)) = Running"
    unfolding Let_def by blast+
  moreover from A have "p_y (bottomPlayer (jumpTicks (Suc 0) (step PlayersTick s)))
          = p_y (bottomPlayer (jumpTicks 0 (step PlayersTick s)))
            + jumpVelocity (jumpTicks 0 (step PlayersTick s))" by simp
  moreover have "jumpTicks 0 (step PlayersTick s) = step PlayersTick s"
    by (simp add: jumpTicks_def)
  moreover from B have "p_y (bottomPlayer (jumpTicks 53 (step PlayersTick s))) = groundY \<and>
        bottomPlayerState (jumpTicks 53 (step PlayersTick s)) = Running" by simp
  ultimately show ?thesis
    unfolding Let_def s_def [symmetric] using H by simp
qed

subsection \<open>Lane changes\<close>

lemma lane_step:
  assumes "0 \<le> topPlayerLane s \<and> topPlayerLane s \<le> LANES - 1 \<and>
     p_x (topPlayer s) = laneCenter (topPlayerLane s)"
  shows "0 \<le> topPlayerLane (step e s) \<and> topPlayerLane (step e s) \<le> LANES - 1 \<and>
     p_x (topPlayer (step e s)) = laneCenter (topPlayerLane (step e s))"
proof (cases e)
  case PlayersTick
  have "0 \<le> topPlayerLane (updatePlayers s) \<and> topPlayerLane (updatePlayers s) \<le> LANES - 1"
    using assms by (simp add: updatePlayers_lane Let_def LANES_def)
  moreover have "p_x (topPlayer (updatePlayers s)) = laneCenter (topPlayerLane (updatePlayers s))"
  proof (cases "leftKey (keysPressed s) \<or> rightKey (keysPressed s)")
    case True
    then show ?thesis by (simp only: updatePlayers_x if_True)
  next
    case False
    then show ?thesis using assms by (simp add: updatePlayers_x updatePlayers_lane)
  qed
  ultimately show ?thesis using assms PlayersTick by simp
qed (use assms in \<open>simp_all add: frames LANES_def\<close>)

lemma lane_run:
  "0 \<le> topPlayerLane (run events (initialSession saved t0)) \<and>
   topPlayerLane (run events (initialSession saved t0)) \<le> LANES - 1 \<and>
   p_x (topPlayer (run events (initialSession saved t0)))
     = laneCenter (topPlayerLane (run events (initialSession saved t0)))"
proof (induction events rule: rev_induct)
  case Nil
  show ?case by (simp add: run_Nil initialSession_def LANES_def laneCenter_def)
next
  case (snoc e events)
  from lane_step [OF this] show ?case by (simp only: run_snoc)
qed

lemma released_updatePlayers:
  assumes "\<not> leftKey (keysPressed s) \<and> \<not> rightKey (keysPressed s)"
  shows "keysPressed (updatePlayers s) = keysPressed s"
    and "topPlayerLane (updatePlayers s) = topPlayerLane s"
  using assms by (simp_all add: updatePlayers_keys updatePlayers_lane)

lemma released_step:
  assumes "\<not> leftKey (keysPressed s) \<and> \<not> rightKey (keysPressed s)" and "noPress e"
  shows "(\<not> leftKey (keysPressed (step e s)) \<and> \<not> rightKey (keysPressed (step e s))) \<and>
         topPlayerLane (step e s) = topPlayerLane s"
proof (cases e)
  case (KeyUp key)
  from assms(1) leftKey_antimono [of "keysPressed s" "{key}"]
    rightKey_antimono [of "keysPressed s" "{key}"]
  show ?thesis by (auto simp add: KeyUp frames)
next
  case PlayersTick
  from assms(1) released_updatePlayers [OF assms(1)] show ?thesis
    by (simp add: PlayersTick)
qed (use assms in \<open>simp_all add: frames\<close>)

lemma released_run:
  assumes "\<not> leftKey (keysPressed s) \<and> \<not> rightKey (keysPressed s)"
  shows "list_all noPress events \<Longrightarrow>
     (\<not> leftKey (keysPressed (run events s)) \<and> \<not> rightKey (keysPressed (run events s))) \<and>
     topPlayerLane (run events s) = topPlayerLane s"
proof (induction events rule: rev_induct)
  case Nil
  show ?case using assms by (simp add: run_Nil)
next
  case (snoc e events)
  then have IH: "\<not> leftKey (keysPressed (run events s)) \<and> \<not> rightKey (keysPressed (run events s))"
    and L: "topPlayerLane (run events s) = topPlayerLane s" and e: "noPress e"
    by simp_all
  from released_step [OF IH e] L show ?case by (simp only: run_snoc) simp
qed

text \<open>
  What holds of the lane changes. After every sequence of events from the initial session
  the top player's lane is in 0..LANES-1 and its x is the centre of that lane. One player
  tick moves the lane one down (not below 0) if a left key is in the pressed set, then one
  up (not above LANES-1) if a right key is; after a move x is the new lane's centre; after
  the tick no left or right key is in the pressed set; and as long as no keydown event
  arrives (and the session is not restarted) the lane stays where the tick left it.
\<close>

theorem lane_change:
  "(0 \<le> topPlayerLane (run events (initialSession saved t0)) \<and>
    topPlayerLane (run events (initialSession saved t0)) \<le> LANES - 1 \<and>
    p_x (topPlayer (run events (initialSession saved t0)))
      = ROAD_OFFSET + real_of_int (topPlayerLane (run events (initialSession saved t0)))
          * LANE_WIDTH + LANE_WIDTH / 2) \<and>
   topPlayerLane (updatePlayers s) =
     (let l1 = (if leftKey (keysPressed s) then max 0 (topPlayerLane s - 1)
                else topPlayerLane s)
      in if rightKey (keysPressed s) then min (LANES - 1) (l1 + 1) else l1) \<and>
   (leftKey (keysPressed s) \<or> rightKey (keysPressed s) \<longrightarrow>
      p_x (topPlayer (updatePlayers s))
        = ROAD_OFFSET + real_of_int (topPlayerLane (updatePlayers s)) * LANE_WIDTH
            + LANE_WIDTH / 2) \<and>
   \<not> leftKey (keysPressed (updatePlayers s)) \<and>
   \<not> rightKey (keysPressed (updatePlayers s)) \<and>
   (list_all noPress held \<longrightarrow>
      topPlayerLane (run held (updatePlayers s)) = topPlayerLane (updatePlayers s))"
proof -
  note inv = lane_run [of events saved t0, unfolded laneCenter_def]
  note lane = updatePlayers_lane [of s]
  have x: "leftKey (keysPressed s) \<or> rightKey (keysPressed s) \<longrightarrow>
      p_x (topPlayer (updatePlayers s))
        = ROAD_OFFSET + real_of_int (topPlayerLane (updatePlayers s)) * LANE_WIDTH
            + LANE_WIDTH / 2"
    by (simp only: updatePlayers_x laneCenter_def) simp
  note keys = updatePlayers_consumes [of s]
  have held: "list_all noPress held \<longrightarrow>
      topPlayerLane (run held (updatePlayers s)) = topPlayerLane (updatePlayers s)"
    using released_run [OF updatePlayers_consumes, of held s] by blast
  from inv lane x keys held show ?thesis by blast
qed

theorem lane_change_witness:
  "(let s = run [KeyDown ''ArrowLeft'', StartClick] (initialSession 0 0);
        t = updatePlayers s
    in leftKey (keysPressed s) \<and> topPlayerLane s = 2 \<and>
       topPlayerLane t = 1 \<and> p_x (topPlayer t) = 304 \<and>
       \<not> leftKey (keysPressed t) \<and>
       list_all noPress [PlayersTick, KeyUp ''ArrowLeft'', PlayersTick] \<and>
       topPlayerLane (run [PlayersTick, KeyUp ''ArrowLeft'', PlayersTick] t) = 1 \<and>
       0 \<le> topPlayerLane (run [KeyDown ''ArrowLeft'', StartClick, PlayersTick]
              (initialSession 0 0)) \<and>
       topPlayerLane (run [KeyDown ''ArrowLeft'', StartClick, PlayersTick]
              (initialSession 0 0)) \<le> LANES - 1)"
proof -
  define s where "s = run [KeyDown ''ArrowLeft'', StartClick] (initialSession 0 0)"
  have s: "s = (startGame (initialSession 0 0))\<lparr>keysPressed := {''ArrowLeft''}\<rparr>"
    by (simp add: s_def run_def handleKeyDown_def startGame_def initialSession_def)
  have H: "leftKey (keysPressed s)" "\<not> rightKey (keysPressed s)" "topPlayerLane s = 2"
    by (simp_all add: s startGame_def leftKey_def rightKey_def)
  have held: "list_all noPress [PlayersTick, KeyUp ''ArrowLeft'', PlayersTick]" by simp
  from lane_change [of "[KeyDown ''ArrowLeft'', StartClick, PlayersTick]" 0 0 s
      "[PlayersTick, KeyUp ''ArrowLeft'', PlayersTick]"] H held
  show ?thesis
    unfolding Let_def s_def [symmetric]
    by (simp add: game_constants)
qed

text \<open>
  Claim C4, evaluated on the code. The left key goes down once and is never released. The
  first player tick moves the top player from lane 2 to lane 1 and deletes the key from
  the pressed set, and a further tick leaves the lane at 1. A held key delivers keydown
  events again, and \<open>handleKeyDown\<close> adds the key to the pressed set on every keydown
  (it does not look at \<open>e.repeat\<close>): after the second keydown, still with no key-up in
  between, the next tick moves the player again, to lane 0.
\<close>

theorem held_key_moves_lane_again:
  "(let pressed = run [StartClick, KeyDown ''ArrowLeft'', PlayersTick] (initialSession 0 0);
        repeated = run [KeyDown ''ArrowLeft'', PlayersTick] pressed
    in topPlayerLane (run [StartClick, KeyDown ''ArrowLeft''] (initialSession 0 0)) = 2 \<and>
       topPlayerLane pressed = 1 \<and>
       \<not> leftKey (keysPressed pressed) \<and>
       topPlayerLane (step PlayersTick pressed) = 1 \<and>
       topPlayerLane repeated = 0)"
proof -
  define s where "s = run [StartClick, KeyDown ''ArrowLeft''] (initialSession 0 0)"
  have s: "gameState s = Playing" "topPlayerLane s = 2" "keysPressed s = {''ArrowLeft''}"
    by (simp_all add: s_def run_def handleKeyDown_def startGame_def initialSession_def)
  define pressed where "pressed = updatePlayers s"
  have run1: "run [StartClick, KeyDown ''ArrowLeft'', PlayersTick] (initialSession 0 0) = pressed"
    using s(1) by (simp add: pressed_def s_def run_def)
  have K: "leftKey {''ArrowLeft''}" "\<not> rightKey {''ArrowLeft''}"
    by (simp_all add: leftKey_def rightKey_def)
  have p: "gameState pressed = Playing" "topPlayerLane pressed = 1" "keysPressed pressed = {}"
    by (simp_all add: pressed_def updatePlayers_frame updatePlayers_lane updatePlayers_keys
        s K)
  have E: "\<not> leftKey {}" "\<not> rightKey {}"
    by (simp_all add: leftKey_def rightKey_def)
  have idle: "topPlayerLane (step PlayersTick pressed) = 1"
    by (simp add: p updatePlayers_lane E)
  define again where "again = handleKeyDown Idle ''ArrowLeft'' pressed"
  have a: "gameState again = Playing" "topPlayerLane again = 1"
    "keysPressed again = {''ArrowLeft''}"
    by (simp_all add: again_def handleKeyDown_def p)
  have run2: "run [KeyDown ''ArrowLeft'', PlayersTick] pressed = updatePlayers again"
    using a(1) by (simp add: run_def again_def)
  have r: "topPlayerLane (updatePlayers again) = 0"
    by (simp add: updatePlayers_lane a K)
  show ?thesis
    unfolding Let_def run1 run2 s_def [symmetric]
    using s(2) p(2,3) E(1) idle r by simp
qed

subsection \<open>Top-stream batches\<close>

lemma numObstacles_range:
  assumes "0 \<le> topCount rnd" and "topCount rnd < 1"
  shows "1 \<le> numObstacles rnd \<and> numObstacles rnd \<le> LANES - 1"
proof -
  have "0 \<le> topCount rnd * 4" and "topCount rnd * 4 < 4" using assms by simp_all
  then have "0 \<le> \<lfloor>topCount rnd * 4\<rfloor>" and "\<lfloor>topCount rnd * 4\<rfloor> < 4"
    by (simp_all add: floor_less_iff)
  then show ?thesis by (simp add: numObstacles_def LANES_def)
qed

lemma availableLanes_eq: "availableLanes = [0, 1, 2, 3, 4]"
  by (simp add: availableLanes_def LANES_def upto.simps)

lemma shuffle_facts:
  assumes "mset (topShuffle rnd) = mset availableLanes"
  shows "distinct (topShuffle rnd)" and "set (topShuffle rnd) = {0, 1, 2, 3, 4}"
    and "length (topShuffle rnd) = 5"
proof -
  have "distinct availableLanes" by (simp add: availableLanes_eq)
  with assms show "distinct (topShuffle rnd)" by (metis distinct_count_atmost_1 set_mset_mset)
  from assms have "set (topShuffle rnd) = set availableLanes" by (rule mset_eq_setD)
  then show "set (topShuffle rnd) = {0, 1, 2, 3, 4}" by (simp add: availableLanes_eq)
  from assms have "length (topShuffle rnd) = length availableLanes" by (rule mset_eq_length)
  then show "length (topShuffle rnd) = 5" by (simp add: availableLanes_eq)
qed

lemma lanes_of_batch:
  "map o_lane (map (\<lambda>(i, lane). topObstacle (ids i) lane) (enumerate n lanes)) = map Some lanes"
  by (induction lanes arbitrary: n) (simp_all add: topObstacle_def)

lemma newObstacles_lanes: "map o_lane (newObstacles rnd) = map Some (obstacleLanes rnd)"
  by (simp only: newObstacles_def lanes_of_batch)

lemma newObstacles_length: "length (newObstacles rnd) = length (obstacleLanes rnd)"
  by (simp add: newObstacles_def)

lemma newObstacles_member:
  assumes "ob \<in> set (newObstacles rnd)"
  shows "\<exists>ident lane. lane \<in> set (obstacleLanes rnd) \<and> ob = topObstacle ident lane"
proof -
  from assms obtain i lane where "(i, lane) \<in> set (enumerate 0 (obstacleLanes rnd))"
    and ob: "ob = topObstacle (topIds rnd i) lane"
    by (auto simp: newObstacles_def)
  then have "lane \<in> set (obstacleLanes rnd)" by (auto simp: in_set_enumerate_eq)
  with ob show ?thesis by blast
qed

lemma topObstacle_in_band:
  assumes "0 \<le> lane" and "lane \<le> LANES - 1"
  shows "o_y (topObstacle ident lane) = - 30 \<and>
     o_lane (topObstacle ident lane) = Some lane \<and>
     ROAD_OFFSET + real_of_int lane * LANE_WIDTH \<le> o_x (topObstacle ident lane) \<and>
     o_x (topObstacle ident lane) + o_width (topObstacle ident lane)
       \<le> ROAD_OFFSET + real_of_int (lane + 1) * LANE_WIDTH"
  by (simp add: topObstacle_def game_constants algebra_simps)

text \<open>
  Claim C5. For a count draw in [0,1) and a shuffle that is a rearrangement of the five
  lanes: the game loop appends a batch to the top stream exactly when the gate draw is
  below 0.015 and more than 2000 ms have passed since the last top-stream spawn, so never
  when less than 2000 ms have passed; otherwise the top stream is only moved. The batch
  has between 1 and LANES-1 obstacles, in pairwise distinct lanes, so some lane has no
  obstacle; every obstacle of it has y = -30 and lies, with x and x + width, inside the
  horizontal band of its lane.
\<close>

theorem top_batch:
  assumes "0 \<le> topCount rnd" and "topCount rnd < 1"
    and "mset (topShuffle rnd) = mset availableLanes"
  shows "(spawnTop rnd s \<longleftrightarrow> topGate rnd < 0.015 \<and> now s - lastTopObstacleTime s > 2000) \<and>
     (now s - lastTopObstacleTime s < 2000 \<longrightarrow> \<not> spawnTop rnd s) \<and>
     (\<not> spawnTop rnd s \<longrightarrow>
        topObstacles (gameLoop rnd captured s) = moveTop (topScreenSpeed s) (topObstacles s) \<and>
        lastTopObstacleTime (gameLoop rnd captured s) = lastTopObstacleTime s) \<and>
     (spawnTop rnd s \<longrightarrow>
        topObstacles (gameLoop rnd captured s)
          = moveTop (topScreenSpeed s) (topObstacles s) @ newObstacles rnd \<and>
        lastTopObstacleTime (gameLoop rnd captured s) = now s) \<and>
     1 \<le> length (newObstacles rnd) \<and> int (length (newObstacles rnd)) \<le> LANES - 1 \<and>
     distinct (map o_lane (newObstacles rnd)) \<and>
     (\<exists>lane \<in> set availableLanes. Some lane \<notin> set (map o_lane (newObstacles rnd))) \<and>
     (\<forall>ob \<in> set (newObstacles rnd).
        o_y ob = - 30 \<and>
        (\<exists>lane. o_lane ob = Some lane \<and> 0 \<le> lane \<and> lane \<le> LANES - 1 \<and>
           ROAD_OFFSET + real_of_int lane * LANE_WIDTH \<le> o_x ob \<and>
           o_x ob + o_width ob \<le> ROAD_OFFSET + real_of_int (lane + 1) * LANE_WIDTH))"
proof -
  note n = numObstacles_range [OF assms(1,2)]
  note sh = shuffle_facts [OF assms(3)]
  from n have n4: "1 \<le> numObstacles rnd" "numObstacles rnd \<le> 4"
    by (simp_all add: LANES_def)
  then have "nat (numObstacles rnd) \<le> 5" by linarith
  then have len: "length (obstacleLanes rnd) = nat (numObstacles rnd)"
    using sh(3) by (simp add: obstacleLanes_def)
  have gate: "spawnTop rnd s \<longleftrightarrow> topGate rnd < 0.015 \<and> now s - lastTopObstacleTime s > 2000"
    by (simp add: spawnTop_def)
  then have early: "now s - lastTopObstacleTime s < 2000 \<longrightarrow> \<not> spawnTop rnd s" by simp
  have quiet: "\<not> spawnTop rnd s \<longrightarrow>
        topObstacles (gameLoop rnd captured s) = moveTop (topScreenSpeed s) (topObstacles s) \<and>
        lastTopObstacleTime (gameLoop rnd captured s) = lastTopObstacleTime s"
    by (simp add: gameLoop_def Let_def)
  have spawn: "spawnTop rnd s \<longrightarrow>
        topObstacles (gameLoop rnd captured s)
          = moveTop (topScreenSpeed s) (topObstacles s) @ newObstacles rnd \<and>
        lastTopObstacleTime (gameLoop rnd captured s) = now s"
    by (simp add: gameLoop_def Let_def)
  have size: "1 \<le> length (newObstacles rnd) \<and> int (length (newObstacles rnd)) \<le> LANES - 1"
    using n4 by (simp add: newObstacles_length len LANES_def)
  have "distinct (obstacleLanes rnd)"
    using sh(1) by (simp add: obstacleLanes_def)
  then have dist: "distinct (map o_lane (newObstacles rnd))"
    by (simp add: newObstacles_lanes distinct_map)
  have sub: "set (obstacleLanes rnd) \<subseteq> {0, 1, 2, 3, 4}"
    using set_take_subset [of "nat (numObstacles rnd)" "topShuffle rnd"]
    by (simp only: obstacleLanes_def sh(2))
  have "\<exists>lane \<in> set availableLanes. lane \<notin> set (obstacleLanes rnd)"
  proof (rule ccontr)
    assume "\<not> (\<exists>lane \<in> set availableLanes. lane \<notin> set (obstacleLanes rnd))"
    then have "set availableLanes \<subseteq> set (obstacleLanes rnd)" by blast
    then have "card (set availableLanes) \<le> card (set (obstacleLanes rnd))"
      by (simp add: card_mono)
    moreover have "card (set availableLanes) = 5" by (simp add: availableLanes_eq)
    moreover have "card (set (obstacleLanes rnd)) \<le> length (obstacleLanes rnd)"
      by (rule card_length)
    moreover have "length (obstacleLanes rnd) \<le> 4" using n4 by (simp add: len)
    ultimately show False by simp
  qed
  then have open_lane:
    "\<exists>lane \<in> set availableLanes. Some lane \<notin> set (map o_lane (newObstacles rnd))"
    by (auto simp add: newObstacles_lanes)
  have band: "\<forall>ob \<in> set (newObstacles rnd).
        o_y ob = - 30 \<and>
        (\<exists>lane. o_lane ob = Some lane \<and> 0 \<le> lane \<and> lane \<le> LANES - 1 \<and>
           ROAD_OFFSET + real_of_int lane * LANE_WIDTH \<le> o_x ob \<and>
           o_x ob + o_width ob \<le> ROAD_OFFSET + real_of_int (lane + 1) * LANE_WIDTH)"
  proof
    fix ob assume "ob \<in> set (newObstacles rnd)"
    from newObstacles_member [OF this] obtain ident lane
      where lane: "lane \<in> set (obstacleLanes rnd)" and ob: "ob = topObstacle ident lane"
      by blast
    from lane sub have r: "0 \<le> lane" "lane \<le> LANES - 1" by (auto simp: LANES_def)
    from topObstacle_in_band [OF r, of ident] r show
      "o_y ob = - 30 \<and>
        (\<exists>lane. o_lane ob = Some lane \<and> 0 \<le> lane \<and> lane \<le> LANES - 1 \<and>
           ROAD_OFFSET + real_of_int lane * LANE_WIDTH \<le> o_x ob \<and>
           o_x ob + o_width ob \<le> ROAD_OFFSET + real_of_int (lane + 1) * LANE_WIDTH)"
      unfolding ob by blast
  qed
  from gate early quiet spawn size dist open_lane band show ?thesis by blast
qed

theorem top_batch_witness:
  "(let s = run [StartClick] (initialSession 0 5000)
    in 0 \<le> topCount busyTick \<and> topCount busyTick < 1 \<and>
       mset (topShuffle busyTick) = mset availableLanes \<and>
       spawnTop busyTick s \<and>
       map o_lane (topObstacles (gameLoop busyTick [] s)) = [Some 3, Some 0, Some 4] \<and>
       map o_y (topObstacles (gameLoop busyTick [] s)) = [- 30, - 30, - 30] \<and>
       lastTopObstacleTime (gameLoop busyTick [] s) = 5000)"
proof -
  define s where "s = run [StartClick] (initialSession 0 5000)"
  have s: "now s = 5000" "lastTopObstacleTime s = 0" "topObstacles s = []"
    by (simp_all add: s_def run_def startGame_def initialSession_def)
  have H: "0 \<le> topCount busyTick" "topCount busyTick < 1"
    "mset (topShuffle busyTick) = mset availableLanes"
    by (simp_all add: busyTick_def availableLanes_eq)
  have sp: "spawnTop busyTick s" by (simp add: spawnTop_def s busyTick_def)
  have "numObstacles busyTick = 3" by (simp add: numObstacles_def busyTick_def LANES_def)
  then have "obstacleLanes busyTick = [3, 0, 4]"
    by (simp add: obstacleLanes_def busyTick_def)
  then have lanes: "map o_lane (newObstacles busyTick) = [Some 3, Some 0, Some 4]"
    and ys: "map o_y (newObstacles busyTick) = [- 30, - 30, - 30]"
    by (simp_all add: newObstacles_def topObstacle_def enumerate_eq_zip upt_rec)
  from top_batch [OF H, of s "[]"] sp lanes ys H show ?thesis
    unfolding Let_def s_def [symmetric]
    by (simp add: s moveTop_def)
qed

subsection \<open>Score\<close>

lemma score_step:
  "e \<noteq> StartClick \<Longrightarrow> e \<noteq> ResetClick \<Longrightarrow>
   score s \<le> score (step e s) \<and> (gameState s \<noteq> Playing \<longrightarrow> score (step e s) = score s)"
  by (cases e) (simp_all add: frames)

lemma score_run:
  "StartClick \<notin> set events \<Longrightarrow> ResetClick \<notin> set events \<Longrightarrow> score s \<le> score (run events s)"
proof (induction events rule: rev_induct)
  case Nil
  then show ?case by (simp add: run_Nil)
next
  case (snoc e events)
  then have "score s \<le> score (run events s)" by simp
  moreover from snoc.prems have "e \<noteq> StartClick" "e \<noteq> ResetClick" by auto
  from score_step [OF this] have "score (run events s) \<le> score (step e (run events s))"
    by simp
  ultimately show ?case by (simp only: run_snoc)
qed

text \<open>
  Claim C6. A tick of the game loop in state playing adds exactly 1 to the score; in any
  other state the tick does not run and the session is unchanged. No event other than the
  start and reset buttons lowers the score, none changes it outside state playing, and
  over any sequence of such events the score does not decrease.
\<close>

theorem score_counts_playing_ticks:
  "(gameState s = Playing \<longrightarrow> score (step (LoopTick rnd captured) s) = score s + 1) \<and>
   (gameState s \<noteq> Playing \<longrightarrow> step (LoopTick rnd captured) s = s) \<and>
   (e \<noteq> StartClick \<and> e \<noteq> ResetClick \<longrightarrow>
      score s \<le> score (step e s) \<and>
      (gameState s \<noteq> Playing \<longrightarrow> score (step e s) = score s)) \<and>
   (StartClick \<notin> set events \<and> ResetClick \<notin> set events \<longrightarrow> score s \<le> score (run events s))"
  using score_step [of e s] score_run [of events s]
  by (simp add: gameLoop_def Let_def)

theorem score_counts_playing_ticks_witness:
  "(let s = run [StartClick, LoopTick quietTick []] (initialSession 0 0);
        p = step PauseClick s;
        later = [LoopTick quietTick [], PauseClick, LoopTick quietTick [], CollisionCheck]
    in gameState s = Playing \<and> score s = 1 \<and>
       score (step (LoopTick quietTick []) s) = 2 \<and>
       gameState p \<noteq> Playing \<and> step (LoopTick quietTick []) p = p \<and>
       score (step PauseClick s) = 1 \<and>
       StartClick \<notin> set later \<and> ResetClick \<notin> set later \<and>
       score s \<le> score (run later s))"
proof -
  define s where "s = run [StartClick, LoopTick quietTick []] (initialSession 0 0)"
  have s: "gameState s = Playing" "score s = 1"
    by (simp_all add: s_def run_def startGame_def gameLoop_frame)
       (simp add: gameLoop_def Let_def)
  have p: "gameState (step PauseClick s) \<noteq> Playing" "score (step PauseClick s) = 1"
    by (simp_all add: pauseGame_def s)
  have l: "StartClick \<notin> set [LoopTick quietTick [], PauseClick, LoopTick quietTick [], CollisionCheck]"
    "ResetClick \<notin> set [LoopTick quietTick [], PauseClick, LoopTick quietTick [], CollisionCheck]"
    by simp_all
  from score_counts_playing_ticks [of s quietTick "[]" PauseClick
      "[LoopTick quietTick [], PauseClick, LoopTick quietTick [], CollisionCheck]"]
    score_counts_playing_ticks [of "step PauseClick s" quietTick "[]" PauseClick "[]"]
    s p l
  show ?thesis
    unfolding Let_def s_def [symmetric]
    by (simp del: step.simps)
qed

subsection \<open>Obstacle type selection\<close>

text \<open>
  Claim C7 fails as stated: the draws 0.33 and 0.66 lie in the first and in the second of
  three equal ranges of [0,1), and are mapped to the second and the third type.
\<close>

theorem obstacleType_third_counterexample:
  "(33/100 :: real) < 1/3 \<and> obstacleType (33/100) = KindGroundBox \<and>
   (66/100 :: real) < 2/3 \<and> obstacleType (66/100) = KindAirBox"
  by (simp add: obstacleType_def)

text \<open>
  Claim C7 as amended. The type of a bottom-stream obstacle is selected from a single draw
  in [0,1) partitioned at 0.33 and 0.66: pit on [0, 0.33), ground box on [0.33, 0.66), air
  branch on [0.66, 1); the ranges have lengths 0.33, 0.33 and 0.34.
\<close>

theorem obstacleType_ranges:
  "{r. 0 \<le> r \<and> r < 1 \<and> o_type (generateObstacle ident r) = Some Pit} = {0 ..< 33/100} \<and>
   {r. 0 \<le> r \<and> r < 1 \<and> o_type (generateObstacle ident r) = Some GroundBox}
      = {33/100 ..< 66/100} \<and>
   {r. 0 \<le> r \<and> r < 1 \<and> o_type (generateObstacle ident r) = Some AirBranch}
      = {66/100 ..< 1}"
  by (auto simp: generateObstacle_def obstacleType_def split: if_splits)

subsection \<open>Start and reset\<close>

text \<open>
  Claim C8, evaluated on the code. After a start and one tick of the game loop the position
  of the last bottom-stream spawn is 798. The start action and the reset action both leave
  it at 798, not at its initial value 800, while they do restore the time of the last
  top-stream spawn.
\<close>

theorem restart_keeps_lastBottomObstacleX:
  "(let s = run [StartClick, LoopTick quietTick []] (initialSession 0 0)
    in lastBottomObstacleX (initialSession 0 0) = 800 \<and>
       lastBottomObstacleX s = 798 \<and>
       lastBottomObstacleX (step StartClick s) = 798 \<and>
       lastBottomObstacleX (step ResetClick s) = 798 \<and>
       lastTopObstacleTime (step StartClick s) = lastTopObstacleTime (initialSession 0 0))"
  by (simp add: run_def callback_defs initialSession_def quietTick_def spawnBottom_def
      spawnTop_def moveBottom_def moveTop_def game_constants)

subsection \<open>Crawl and its timed revert\<close>

lemma now_step: "now s \<le> now (step e s)"
  by (cases e) (simp_all add: frames)

lemma timers_step:
  assumes "D \<in> set (timers s)" and "now (step e s) < D"
  shows "D \<in> set (timers (step e s))"
proof (cases e)
  case PlayersTick
  with assms(1) show ?thesis by (simp add: frames updateBottomPlayer_timers)
next
  case (Elapse d)
  with assms(2) have "now s + int d < D" by (simp add: elapse_frame)
  with assms(1) show ?thesis by (simp add: Elapse elapse_def Let_def)
qed (use assms in \<open>simp_all add: frames\<close>)

lemma timers_run:
  assumes "D \<in> set (timers s)"
  shows "now (run events s) < D \<Longrightarrow> D \<in> set (timers (run events s))"
proof (induction events rule: rev_induct)
  case Nil
  show ?case using assms by (simp add: run_Nil)
next
  case (snoc e events)
  from snoc.prems have later: "now (step e (run events s)) < D"
    by (simp only: run_snoc)
  with now_step [of "run events s" e] have "now (run events s) < D" by simp
  from timers_step [OF snoc.IH [OF this] later] show ?case by (simp only: run_snoc)
qed

lemma elapse_fires:
  assumes "D \<in> set (timers s)" and "D \<le> now s + int d"
  shows "bottomPlayerState (elapse d s) = Running"
proof -
  from assms have "D \<in> set (filter (\<lambda>deadline. deadline \<le> now s + int d) (timers s))"
    by simp
  then have "filter (\<lambda>deadline. deadline \<le> now s + int d) (timers s) \<noteq> []"
    by (metis empty_iff empty_set)
  then show ?thesis by (simp add: elapse_def Let_def)
qed

text \<open>
  Claim C9. In state running with a crawl key in the pressed set, the player tick sets the
  state to crawling and schedules the revert 600 ms ahead. Whatever events follow before
  that deadline (key events, a pause, a collision ending the game, \<dots>), the revert stays
  scheduled, and when the clock reaches the deadline the state becomes running, in every
  game state.
\<close>

theorem crawl_reverts_after_timeout:
  assumes "bottomPlayerState s = Running" and "crawlKey (keysPressed s)"
  shows "bottomPlayerState (updatePlayers s) = Crawling \<and>
     timers (updatePlayers s) = timers s @ [now s + 600] \<and>
     (now (run events (updatePlayers s)) < now s + 600 \<and>
      now s + 600 \<le> now (run events (updatePlayers s)) + int d \<longrightarrow>
        now s + 600 \<in> set (timers (run events (updatePlayers s))) \<and>
        bottomPlayerState (step (Elapse d) (run events (updatePlayers s))) = Running)"
proof -
  have crawl: "bottomPlayerState (updatePlayers s) = Crawling"
    using assms by (simp add: updatePlayers_frame updateBottomPlayer_state)
  have sched: "timers (updatePlayers s) = timers s @ [now s + 600]"
    using assms by (simp add: updatePlayers_frame updateBottomPlayer_timers)
  then have pending: "now s + 600 \<in> set (timers (updatePlayers s))" by simp
  have "now s + 600 \<in> set (timers (run events (updatePlayers s))) \<and>
        bottomPlayerState (step (Elapse d) (run events (updatePlayers s))) = Running"
    if before: "now (run events (updatePlayers s)) < now s + 600"
      and reached: "now s + 600 \<le> now (run events (updatePlayers s)) + int d"
  proof -
    from timers_run [OF pending before]
    have "now s + 600 \<in> set (timers (run events (updatePlayers s)))" .
    with elapse_fires [OF this reached] show ?thesis by simp
  qed
  with crawl sched show ?thesis by blast
qed

theorem crawl_reverts_after_timeout_witness:
  "(let s = run [KeyDown ''ArrowDown'', StartClick] (initialSession 0 0);
        paused = run [PauseClick, Elapse 100] (updatePlayers s)
    in bottomPlayerState s = Running \<and> crawlKey (keysPressed s) \<and>
       bottomPlayerState (updatePlayers s) = Crawling \<and>
       gameState paused = Paused \<and> bottomPlayerState paused = Crawling \<and>
       now paused < now s + 600 \<and> now s + 600 \<le> now paused + int 500 \<and>
       bottomPlayerState (step (Elapse 500) paused) = Running)"
proof -
  define s where "s = run [KeyDown ''ArrowDown'', StartClick] (initialSession 0 0)"
  have s: "s = (startGame (initialSession 0 0))\<lparr>keysPressed := {''ArrowDown''}\<rparr>"
    by (simp add: s_def run_def handleKeyDown_def startGame_def initialSession_def)
  have H: "bottomPlayerState s = Running" "crawlKey (keysPressed s)"
    by (simp_all add: s startGame_def initialSession_def crawlKey_def)
  have n: "now s = 0" by (simp add: s startGame_def initialSession_def)
  have u: "now (updatePlayers s) = 0" "gameState (updatePlayers s) = Playing"
    by (simp_all add: updatePlayers_frame n) (simp add: s startGame_def)
  have p: "now (run [PauseClick, Elapse 100] (updatePlayers s)) = 100"
    "gameState (run [PauseClick, Elapse 100] (updatePlayers s)) = Paused"
    by (simp_all add: run_def pauseGame_def elapse_def Let_def u)
  from crawl_reverts_after_timeout [OF H, of "[PauseClick, Elapse 100]" 500]
  have c: "bottomPlayerState (updatePlayers s) = Crawling"
    and t: "timers (updatePlayers s) = timers s @ [now s + 600]"
    and r: "bottomPlayerState (step (Elapse 500)
              (run [PauseClick, Elapse 100] (updatePlayers s))) = Running"
    by (simp_all add: p n)
  have t0: "timers s = []" by (simp add: s startGame_def initialSession_def)
  have q: "bottomPlayerState (run [PauseClick, Elapse 100] (updatePlayers s)) = Crawling"
    by (simp add: run_def pauseGame_def elapse_def Let_def u c t t0 n)
  show ?thesis
    unfolding Let_def s_def [symmetric] using H c p q r n by simp
qed

subsection \<open>Fixed coordinates\<close>

lemma axes_step:
  "p_x (bottomPlayer s) = 100 \<and> p_y (topPlayer s) = TOP_PLAYER_Y \<Longrightarrow>
   p_x (bottomPlayer (step e s)) = 100 \<and> p_y (topPlayer (step e s)) = TOP_PLAYER_Y"
  by (cases e) (simp_all add: frames)

lemma axes_run:
  "p_x (bottomPlayer (run events (initialSession saved t0))) = 100 \<and>
   p_y (topPlayer (run events (initialSession saved t0))) = TOP_PLAYER_Y"
proof (induction events rule: rev_induct)
  case Nil
  show ?case by (simp add: run_Nil initialSession_def)
next
  case (snoc e events)
  from axes_step [OF this] show ?case by (simp only: run_snoc)
qed

text \<open>
  Claim C10. After every sequence of events from the initial session the bottom player's x
  is 100 and the top player's y is GAME_HEIGHT - 40. The player tick leaves the bottom
  player and the top player's y as they are, and the jump interval leaves the bottom
  player's x and the top player as they are.
\<close>

theorem fixed_axes:
  "p_x (bottomPlayer (run events (initialSession saved t0))) = 100 \<and>
   p_y (topPlayer (run events (initialSession saved t0))) = GAME_HEIGHT - 40 \<and>
   bottomPlayer (updatePlayers s) = bottomPlayer s \<and>
   p_y (topPlayer (updatePlayers s)) = p_y (topPlayer s) \<and>
   p_x (bottomPlayer (jumpPhysics s)) = p_x (bottomPlayer s) \<and>
   topPlayer (jumpPhysics s) = topPlayer s"
  using axes_run [of events saved t0]
  by (simp add: TOP_PLAYER_Y_def updatePlayers_frame jumpPhysics_frame)

end
